theory Spec2Isabelle
  imports Main
begin

section \<open>Errors and Python list indexing\<close>

text \<open>
  The exceptions the module can raise, as values. \<open>InvalidCombination seal tone\<close> is the
  \<open>ValueError\<close> raised at the end of \<open>kin_from_seal_tone\<close>; \<open>DateValueError\<close> is the
  \<open>ValueError\<close> of the \<open>date(y, m, d)\<close> constructor on an impossible date;
  \<open>KeyError\<close> is a dictionary read at an absent key, \<open>TypeError\<close> a list subscripted
  with \<open>None\<close>, \<open>IndexError\<close> a list subscripted out of range.
\<close>

datatype error =
    InvalidCombination int int
  | DateValueError
  | KeyError
  | TypeError
  | IndexError

definition bind_err :: "error + 'a \<Rightarrow> ('a \<Rightarrow> error + 'b) \<Rightarrow> error + 'b" where
  "bind_err r f = (case r of Inl e \<Rightarrow> Inl e | Inr x \<Rightarrow> f x)"

text \<open>
  Subscripting a Python list: positions \<open>0 .. len - 1\<close> read from the front, positions
  \<open>- len .. - 1\<close> read from the back, and anything else is an \<open>IndexError\<close>.
\<close>

definition py_index :: "'a list \<Rightarrow> int \<Rightarrow> error + 'a" where
  "py_index xs i =
     (if 0 \<le> i \<and> i < int (length xs) then Inr (xs ! nat i)
      else if - int (length xs) \<le> i \<and> i < 0 then Inr (xs ! nat (int (length xs) + i))
      else Inl IndexError)"

section \<open>Constant tables\<close>

text \<open>
  Python strings are sequences of code points. Every code point of the tables is below
  256, so a string is a \<open>char list\<close> holding one \<open>char\<close> per code point; the accented
  letters are written by their code point.
\<close>

definition SEALS :: "string list" where
  "SEALS =
    [''Drag'' @ [CHR 0xE3] @ ''o'', ''Vento'', ''Noite'', ''Semente'', ''Serpente'',
     ''Enla'' @ [CHR 0xE7] @ ''ador de Mundos'', ''M'' @ [CHR 0xE3] @ ''o'', ''Estrela'',
     ''Lua'', ''C'' @ [CHR 0xE3] @ ''o'',
     ''Macaco'', ''Humano'', ''Caminhante do C'' @ [CHR 0xE9] @ ''u'', ''Mago'',
     [CHR 0xC1] @ ''guia'',
     ''Guerreiro'', ''Terra'', ''Espelho'', ''Tempestade'', ''Sol'']"

definition TONES :: "string list" where
  "TONES =
    [''Magn'' @ [CHR 0xE9] @ ''tico'', ''Lunar'', ''El'' @ [CHR 0xE9] @ ''trico'',
     ''Autoexistente'', ''Harm'' @ [CHR 0xF4] @ ''nico'',
     ''R'' @ [CHR 0xED] @ ''tmico'', ''Ressonante'', ''Gal'' @ [CHR 0xE1] @ ''ctico'',
     ''Solar'', ''Planet'' @ [CHR 0xE1] @ ''rio'',
     ''Espectral'', ''Cristal'', ''C'' @ [CHR 0xF3] @ ''smico'']"

definition COLORS :: "string list" where
  "COLORS = [''Vermelho'', ''Branco'', ''Azul'', ''Amarelo'']"

section \<open>Calendar dates\<close>

text \<open>
  A \<open>datetime.date\<close> is a (year, month, day) triple of the proleptic Gregorian calendar
  with \<open>1 \<le> year \<le> 9999\<close>. The constructor, the comparisons and the subtraction are the
  standard library's: \<open>date_new\<close> raises on an impossible date, dates compare
  lexicographically, and \<open>(a - b).days\<close> is the difference of the proleptic ordinals
  (\<open>toordinal\<close>, day 1 being 0001-01-01).
\<close>

record date =
  year :: int
  month :: int
  day :: int

definition gregorian_leap :: "int \<Rightarrow> bool" where
  "gregorian_leap y \<longleftrightarrow> y mod 4 = 0 \<and> (y mod 100 \<noteq> 0 \<or> y mod 400 = 0)"

definition days_in_month :: "int \<Rightarrow> int \<Rightarrow> int" where
  "days_in_month y m =
     (if m = 2 then (if gregorian_leap y then 29 else 28)
      else if m = 4 \<or> m = 6 \<or> m = 9 \<or> m = 11 then 30 else 31)"

definition valid_date :: "date \<Rightarrow> bool" where
  "valid_date d \<longleftrightarrow>
     1 \<le> year d \<and> year d \<le> 9999 \<and> 1 \<le> month d \<and> month d \<le> 12 \<and>
     1 \<le> day d \<and> day d \<le> days_in_month (year d) (month d)"

definition date_new :: "int \<Rightarrow> int \<Rightarrow> int \<Rightarrow> error + date" where
  "date_new y m d =
     (if valid_date \<lparr>year = y, month = m, day = d\<rparr>
      then Inr \<lparr>year = y, month = m, day = d\<rparr> else Inl DateValueError)"

definition date_lt :: "date \<Rightarrow> date \<Rightarrow> bool" where
  "date_lt a b \<longleftrightarrow>
     year a < year b \<or>
     (year a = year b \<and> (month a < month b \<or> (month a = month b \<and> day a < day b)))"

definition date_le :: "date \<Rightarrow> date \<Rightarrow> bool" where
  "date_le a b \<longleftrightarrow> date_lt a b \<or> a = b"

definition days_before_year :: "int \<Rightarrow> int" where
  "days_before_year y = (y - 1) * 365 + (y - 1) div 4 - (y - 1) div 100 + (y - 1) div 400"

definition days_before_month :: "int \<Rightarrow> int \<Rightarrow> int" where
  "days_before_month y m = sum_list (map (days_in_month y) [1..m - 1])"

definition toordinal :: "date \<Rightarrow> int" where
  "toordinal d = days_before_year (year d) + days_before_month (year d) (month d) + day d"

definition date_diff_days :: "date \<Rightarrow> date \<Rightarrow> int" where
  "date_diff_days a b = toordinal a - toordinal b"

section \<open>The anchor and the leap adjustment\<close>

definition ANCHOR_DATE :: date where
  "ANCHOR_DATE = \<lparr>year = 2012, month = 12, day = 20\<rparr>"

definition ANCHOR_KIN :: int where
  "ANCHOR_KIN = 206"

definition is_leap :: "int \<Rightarrow> bool" where
  "is_leap y \<longleftrightarrow> (y mod 4 = 0) \<and> ((y mod 100 \<noteq> 0) \<or> (y mod 400 = 0))"

text \<open>
  The body of the \<open>for y in range(mn.year, mx.year + 1)\<close> loop of \<open>_hunab_ku_adjust\<close>,
  over the list of the years still to visit, with the running \<open>count\<close>.
\<close>

fun count_feb29 :: "date \<Rightarrow> date \<Rightarrow> int list \<Rightarrow> int \<Rightarrow> error + int" where
  "count_feb29 mn mx [] count = Inr count"
| "count_feb29 mn mx (y # ys) count =
     (if is_leap y then
        (case date_new y 2 29 of
           Inl e \<Rightarrow> Inl e
         | Inr feb29 \<Rightarrow>
             if date_lt mn feb29 \<and> date_le feb29 mx
             then count_feb29 mn mx ys (count + 1)
             else count_feb29 mn mx ys count)
      else count_feb29 mn mx ys count)"

definition hunab_ku_adjust :: "date \<Rightarrow> date \<Rightarrow> error + int" where
  "hunab_ku_adjust anchor target =
     (if target = anchor then Inr 0
      else
        let (mn, mx) = (if date_lt anchor target then (anchor, target) else (target, anchor))
        in bind_err (count_feb29 mn mx [year mn..year mx] 0)
             (\<lambda>count. Inr (if date_lt anchor target then - count else count)))"

section \<open>Forward and inverse mapping\<close>

definition kin_from_date :: "date \<Rightarrow> error + (int \<times> int \<times> int \<times> string)" where
  "kin_from_date d =
     bind_err (hunab_ku_adjust ANCHOR_DATE d) (\<lambda>adj.
       let delta = date_diff_days d ANCHOR_DATE + adj;
           kin = ((delta + (ANCHOR_KIN - 1)) mod 260) + 1;
           tone = ((kin - 1) mod 13) + 1;
           seal = ((kin - 1) mod 20) + 1
       in bind_err (py_index COLORS ((seal - 1) mod 4)) (\<lambda>color.
            Inr (kin, tone, seal, color)))"

text \<open>The \<open>for k in range(1, 261)\<close> loop of \<open>kin_from_seal_tone\<close>, over the list of the
  candidates still to try; falling off the end is the \<open>raise\<close>.\<close>

fun kin_search :: "int list \<Rightarrow> int \<Rightarrow> int \<Rightarrow> error + int" where
  "kin_search [] seal tone = Inl (InvalidCombination seal tone)"
| "kin_search (k # ks) seal tone =
     (if ((k - 1) mod 20) + 1 = seal \<and> ((k - 1) mod 13) + 1 = tone then Inr k
      else kin_search ks seal tone)"

definition kin_from_seal_tone :: "int \<Rightarrow> int \<Rightarrow> error + int" where
  "kin_from_seal_tone seal tone = kin_search [1..260] seal tone"

section \<open>Oracle rules\<close>

definition analog_seal :: "int \<Rightarrow> int" where
  "analog_seal seal = (let r = (19 - (seal mod 20)) mod 20 in if r = 0 then 20 else r)"

definition antipode_seal :: "int \<Rightarrow> int" where
  "antipode_seal seal = ((seal + 9) mod 20) + 1"

definition occult_seal :: "int \<Rightarrow> int" where
  "occult_seal seal = (let r = (21 - (seal mod 20)) mod 20 in if r = 0 then 20 else r)"

definition occult_tone :: "int \<Rightarrow> int" where
  "occult_tone tone = (let r = (14 - (tone mod 13)) mod 13 in if r = 0 then 13 else r)"

text \<open>The two dictionaries. A value of \<open>GUIDE_INDEX_BY_TONE\<close> may be Python's \<open>None\<close>.\<close>

definition GUIDE_INDEX_BY_TONE :: "int \<rightharpoonup> int option" where
  "GUIDE_INDEX_BY_TONE =
     map_of [(1, None), (2, Some 4), (3, Some 3), (4, Some 2), (5, Some 3), (6, None),
             (7, Some 2), (8, Some 1), (9, Some 0), (10, Some 2), (11, None),
             (12, Some 1), (13, Some 3)]"

definition COLOR_GROUPS :: "string \<rightharpoonup> int list" where
  "COLOR_GROUPS =
     map_of [(''Vermelho'', [1, 5, 9, 13, 17]),
             (''Branco'', [2, 6, 10, 14, 18]),
             (''Azul'', [3, 7, 11, 15, 19]),
             (''Amarelo'', [4, 8, 12, 16, 20])]"

definition guide_seal :: "int \<Rightarrow> int \<Rightarrow> error + int" where
  "guide_seal seal tone =
     (if tone = 1 \<or> tone = 6 \<or> tone = 11 then Inr seal
      else
        bind_err (py_index COLORS ((seal - 1) mod 4)) (\<lambda>color.
          case COLOR_GROUPS color of
            None \<Rightarrow> Inl KeyError
          | Some grp \<Rightarrow>
              (case GUIDE_INDEX_BY_TONE tone of
                 None \<Rightarrow> Inl KeyError
               | Some None \<Rightarrow> Inl TypeError
               | Some (Some i) \<Rightarrow> py_index grp i)))"

section \<open>The oracle record\<close>

record part =
  p_kin :: int
  p_selo_num :: int
  p_selo_nome :: string
  p_tom_num :: int
  p_tom_nome :: string
  p_cor :: string

record oracle_record =
  o_data :: string
  o_destino :: part
  o_analogo :: part
  o_antipoda :: part
  o_guia :: part
  o_oculto :: part

text \<open>The local function \<open>part\<close> of \<open>full_oracle_for_date\<close>.\<close>

definition mk_part :: "int \<Rightarrow> int \<Rightarrow> error + part" where
  "mk_part seal_num tone_num =
     bind_err (kin_from_seal_tone seal_num tone_num) (\<lambda>k.
     bind_err (py_index SEALS (seal_num - 1)) (\<lambda>sn.
     bind_err (py_index TONES (tone_num - 1)) (\<lambda>tn.
     bind_err (py_index COLORS ((seal_num - 1) mod 4)) (\<lambda>c.
       Inr \<lparr>p_kin = k, p_selo_num = seal_num, p_selo_nome = sn,
            p_tom_num = tone_num, p_tom_nome = tn, p_cor = c\<rparr>))))"

text \<open>
  \<open>full_oracle_for_date\<close>. The rendering \<open>d.strftime("%d/%m/%Y")\<close> of the date is the
  standard library's and is taken as the parameter \<open>strftime\<close>.
\<close>

definition full_oracle_for_date :: "(date \<Rightarrow> string) \<Rightarrow> date \<Rightarrow> error + oracle_record" where
  "full_oracle_for_date strftime d =
     bind_err (kin_from_date d) (\<lambda>(kin, tone, seal, color).
       let a_s = analog_seal seal;
           an_s = antipode_seal seal
       in bind_err (guide_seal seal tone) (\<lambda>g_s.
            let o_s = occult_seal seal;
                o_t = occult_tone tone
            in bind_err (mk_part seal tone) (\<lambda>dest.
               bind_err (mk_part a_s tone) (\<lambda>ana.
               bind_err (mk_part an_s tone) (\<lambda>anti.
               bind_err (mk_part g_s tone) (\<lambda>gui.
               bind_err (mk_part o_s o_t) (\<lambda>ocu.
                 Inr \<lparr>o_data = strftime d,
                      o_destino = dest\<lparr>p_kin := kin, p_cor := color\<rparr>,
                      o_analogo = ana, o_antipoda = anti, o_guia = gui,
                      o_oculto = ocu\<rparr>)))))))"

section \<open>The specification's reading of two operations\<close>

text \<open>
  The Guide rule with the index table as the specification prints it (tones
  2, 3, 4, 5, 7, 8, 9, 10, 12, 13 to indices 3, 2, 1, 2, 1, 0, 4, 1, 0, 2); everything
  else is as in \<open>guide_seal\<close>.
\<close>

definition SPEC_GUIDE_INDEX :: "int \<rightharpoonup> int" where
  "SPEC_GUIDE_INDEX =
     map_of [(2, 3), (3, 2), (4, 1), (5, 2), (7, 1), (8, 0), (9, 4), (10, 1), (12, 0),
             (13, 2)]"

definition guide_seal_spec :: "int \<Rightarrow> int \<Rightarrow> error + int" where
  "guide_seal_spec seal tone =
     (if tone = 1 \<or> tone = 6 \<or> tone = 11 then Inr seal
      else
        bind_err (py_index COLORS ((seal - 1) mod 4)) (\<lambda>color.
          case COLOR_GROUPS color of
            None \<Rightarrow> Inl KeyError
          | Some grp \<Rightarrow>
              (case SPEC_GUIDE_INDEX tone of
                 None \<Rightarrow> Inl KeyError
               | Some i \<Rightarrow> py_index grp i)))"

text \<open>
  The leap adjustment as the specification words it: the number of 29 February days of
  leap years lying strictly after the earlier date and not after the later one, negated
  when the target is the later date.
\<close>

definition leap_year_spec :: "int \<Rightarrow> bool" where
  "leap_year_spec y \<longleftrightarrow> 4 dvd y \<and> (\<not> 100 dvd y \<or> 400 dvd y)"

definition feb29_days_between :: "date \<Rightarrow> date \<Rightarrow> date set" where
  "feb29_days_between lo hi =
     {x. leap_year_spec (year x) \<and> month x = 2 \<and> day x = 29 \<and> date_lt lo x \<and> date_le x hi}"

definition leap_adjust_spec :: "date \<Rightarrow> date \<Rightarrow> int" where
  "leap_adjust_spec anchor target =
     (if date_lt anchor target then - int (card (feb29_days_between anchor target))
      else if date_lt target anchor then int (card (feb29_days_between target anchor))
      else 0)"

section \<open>Basic facts\<close>

lemma bind_err_Inr [simp]: "bind_err (Inr x) f = f x"
  by (simp add: bind_err_def)

lemma bind_err_Inl [simp]: "bind_err (Inl e) f = Inl e"
  by (simp add: bind_err_def)

section \<open>The anchor\<close>

text \<open>
  C2. Resolving the anchor date itself gives kin 206, tone 11, seal 6 and the colour
  Branco, and the seal table names seal number 6 (read, as everywhere in the module, at
  index \<open>seal - 1\<close>) "Enlacador de Mundos", spelt with c-cedilla (code point 0xE7).
\<close>

theorem anchor_resolves_to_kin_206:
  "kin_from_date ANCHOR_DATE = Inr (206, 11, 6, ''Branco'') \<and>
   py_index SEALS (6 - 1) = Inr (''Enla'' @ [CHR 0xE7] @ ''ador de Mundos'')"
  by (simp add: kin_from_date_def hunab_ku_adjust_def date_diff_days_def ANCHOR_KIN_def
      py_index_def COLORS_def SEALS_def)

section \<open>Occult and Analog\<close>

lemma occult_seal_involution:
  "1 \<le> s \<Longrightarrow> s \<le> 20 \<Longrightarrow> occult_seal (occult_seal s) = s"
proof -
  assume a: "1 \<le> s" "s \<le> 20"
  consider "s = 20" | "s = 1" | "2 \<le> s \<and> s \<le> 19" using a by linarith
  then show ?thesis
  proof cases
    case 1 then show ?thesis by (simp add: occult_seal_def)
  next
    case 2 then show ?thesis by (simp add: occult_seal_def)
  next
    case 3 then show ?thesis by (simp add: occult_seal_def Let_def)
  qed
qed

lemma occult_tone_involution:
  "1 \<le> t \<Longrightarrow> t \<le> 13 \<Longrightarrow> occult_tone (occult_tone t) = t"
proof -
  assume a: "1 \<le> t" "t \<le> 13"
  consider "t = 13" | "t = 1" | "2 \<le> t \<and> t \<le> 12" using a by linarith
  then show ?thesis
  proof cases
    case 1 then show ?thesis by (simp add: occult_tone_def)
  next
    case 2 then show ?thesis by (simp add: occult_tone_def)
  next
    case 3 then show ?thesis by (simp add: occult_tone_def Let_def)
  qed
qed

text \<open>
  C8. The Occult transforms are involutions: applying \<open>occult_seal\<close> twice to a seal in
  1..20 gives the seal back, and applying \<open>occult_tone\<close> twice to a tone in 1..13 gives
  the tone back.
\<close>

theorem occult_involutions:
  "(1 \<le> s \<and> s \<le> 20 \<longrightarrow> occult_seal (occult_seal s) = s) \<and>
   (1 \<le> t \<and> t \<le> 13 \<longrightarrow> occult_tone (occult_tone t) = t)"
  using occult_seal_involution occult_tone_involution by blast

theorem occult_involutions_witness:
  "occult_seal (occult_seal 7) = 7 \<and> occult_seal 7 = 14 \<and>
   occult_tone (occult_tone 13) = 13 \<and> occult_tone 13 = 1"
  using occult_involutions [of 7 13] by (simp add: occult_seal_def occult_tone_def)

lemma analog_seal_range: "1 \<le> analog_seal s \<and> analog_seal s \<le> 20"
proof -
  have "0 \<le> (19 - s mod 20) mod 20" "(19 - s mod 20) mod 20 < 20" by simp_all
  then show ?thesis by (auto simp: analog_seal_def Let_def)
qed

text \<open>
  C9. The Analog transform is an involution on the seals 1..20, and \<open>analog_seal\<close>
  returns a value in 1..20 on every integer.
\<close>

theorem analog_involution:
  "(1 \<le> s \<and> s \<le> 20 \<longrightarrow> analog_seal (analog_seal s) = s) \<and>
   1 \<le> analog_seal x \<and> analog_seal x \<le> 20"
proof -
  have "analog_seal (analog_seal s) = s" if a: "1 \<le> s" "s \<le> 20"
  proof -
    consider "s = 20" | "s = 19" | "1 \<le> s \<and> s \<le> 18" using a by linarith
    then show ?thesis
    proof cases
      case 1 then show ?thesis by (simp add: analog_seal_def)
    next
      case 2 then show ?thesis by (simp add: analog_seal_def)
    next
      case 3 then show ?thesis by (simp add: analog_seal_def Let_def)
    qed
  qed
  with analog_seal_range [of x] show ?thesis by blast
qed

theorem analog_involution_witness:
  "analog_seal (analog_seal 20) = 20 \<and> analog_seal 20 = 19 \<and>
   1 \<le> analog_seal (- 3) \<and> analog_seal (- 3) \<le> 20"
  using analog_involution [of 20 "- 3"] by (simp add: analog_seal_def)


section \<open>The inverse lookup\<close>

lemma kin_search_unique:
  assumes "k \<in> set ks" "(k - 1) mod 20 + 1 = seal" "(k - 1) mod 13 + 1 = tone"
    and "\<And>j. j \<in> set ks \<Longrightarrow> (j - 1) mod 20 + 1 = seal \<Longrightarrow> (j - 1) mod 13 + 1 = tone \<Longrightarrow> j = k"
  shows "kin_search ks seal tone = Inr k"
  using assms
proof (induction ks)
  case Nil
  from Nil.prems(1) show ?case by simp
next
  case (Cons a ks)
  show ?case
  proof (cases "(a - 1) mod 20 + 1 = seal \<and> (a - 1) mod 13 + 1 = tone")
    case True
    have "a = k" by (rule Cons.prems(4)) (use True in simp_all)
    moreover have "kin_search (a # ks) seal tone = Inr a"
      by (subst kin_search.simps) (rule if_P [OF True])
    ultimately show ?thesis by simp
  next
    case False
    have mem: "k \<in> set ks" using False Cons.prems(1,2,3) by auto
    have uniq: "j = k"
      if "j \<in> set ks" "(j - 1) mod 20 + 1 = seal" "(j - 1) mod 13 + 1 = tone" for j
      by (rule Cons.prems(4)) (use that in simp_all)
    have "kin_search (a # ks) seal tone = kin_search ks seal tone"
      by (subst kin_search.simps) (rule if_not_P [OF False])
    also have "\<dots> = Inr k"
      by (rule Cons.IH [OF mem Cons.prems(2,3) uniq])
    finally show ?thesis .
  qed
qed

lemma kin_search_Inr:
  "kin_search ks seal tone = Inr k \<Longrightarrow>
   k \<in> set ks \<and> (k - 1) mod 20 + 1 = seal \<and> (k - 1) mod 13 + 1 = tone"
  by (induction ks) (auto split: if_splits)

lemma dvd_20_13_small: "20 dvd d \<Longrightarrow> 13 dvd d \<Longrightarrow> \<bar>d\<bar> < 260 \<Longrightarrow> d = (0::int)"
  by presburger

lemma residues_unique:
  assumes "1 \<le> j" "j \<le> 260" "1 \<le> k" "k \<le> 260"
    and "(j - 1) mod 20 = (k - 1) mod 20" "(j - 1) mod 13 = (k - 1) mod (13::int)"
  shows "j = k"
proof -
  have "20 dvd (j - 1) - (k - 1)" "13 dvd (j - 1) - (k - 1)"
    using assms(5,6) by (simp_all add: mod_eq_dvd_iff)
  moreover have "\<bar>(j - 1) - (k - 1)\<bar> < 260" using assms(1-4) by linarith
  ultimately have "(j - 1) - (k - 1) = 0" by (rule dvd_20_13_small)
  then show ?thesis by simp
qed

lemma residues_exist:
  assumes "1 \<le> s" "s \<le> 20" "1 \<le> t" "t \<le> (13::int)"
  shows "\<exists>k. 1 \<le> k \<and> k \<le> 260 \<and> (k - 1) mod 20 + 1 = s \<and> (k - 1) mod 13 + 1 = t"
proof -
  define x where "x = 221 * (s - 1) + 40 * (t - 1)"
  have e20: "x = (s - 1) + 20 * (11 * (s - 1) + 2 * (t - 1))" by (simp add: x_def)
  have e13: "x = (t - 1) + 13 * (17 * (s - 1) + 3 * (t - 1))" by (simp add: x_def)
  have "x mod 260 mod 20 = x mod 20" by (rule mod_mod_cancel) simp
  also have "x mod 20 = (s - 1) mod 20" by (subst e20) (rule mod_mult_self2)
  also have "\<dots> = s - 1" using assms by simp
  finally have a: "x mod 260 mod 20 = s - 1" .
  have "x mod 260 mod 13 = x mod 13" by (rule mod_mod_cancel) simp
  also have "x mod 13 = (t - 1) mod 13" by (subst e13) (rule mod_mult_self2)
  also have "\<dots> = t - 1" using assms by simp
  finally have b: "x mod 260 mod 13 = t - 1" .
  have "0 \<le> x mod 260" "x mod 260 < 260" by simp_all
  with a b show ?thesis by (intro exI [of _ "x mod 260 + 1"]) simp
qed

lemma in_candidates: "j \<in> set [1..260] \<longleftrightarrow> 1 \<le> j \<and> j \<le> 260"
  by (simp only: set_upto atLeastAtMost_iff)

lemma kin_from_seal_tone_unique:
  assumes k: "1 \<le> k" "k \<le> 260" "(k - 1) mod 20 + 1 = s" "(k - 1) mod 13 + 1 = t"
  shows "kin_from_seal_tone s t = Inr k"
  unfolding kin_from_seal_tone_def
proof (rule kin_search_unique)
  show "k \<in> set [1..260]" using k(1,2) by (simp only: in_candidates)
  show "(k - 1) mod 20 + 1 = s" "(k - 1) mod 13 + 1 = t" by (rule k(3), rule k(4))
  fix j assume j: "j \<in> set [1..260]" "(j - 1) mod 20 + 1 = s" "(j - 1) mod 13 + 1 = t"
  from j(1) have r: "1 \<le> j" "j \<le> 260" by (simp_all only: in_candidates)
  have "(j - 1) mod 20 = (k - 1) mod 20" "(j - 1) mod 13 = (k - 1) mod 13"
    using j(2,3) k(3,4) by linarith+
  with r k(1,2) show "j = k" by (rule residues_unique)
qed

lemma kin_from_seal_tone_total:
  assumes "1 \<le> s" "s \<le> 20" "1 \<le> t" "t \<le> 13"
  shows "\<exists>k. kin_from_seal_tone s t = Inr k \<and> 1 \<le> k \<and> k \<le> 260"
proof -
  from residues_exist [OF assms] obtain k where
    k: "1 \<le> k" "k \<le> 260" "(k - 1) mod 20 + 1 = s" "(k - 1) mod 13 + 1 = t" by blast
  from kin_from_seal_tone_unique [OF k] k(1,2) show ?thesis by blast
qed

text \<open>
  C3. For every kin in 1..260 the inverse lookup, applied to the seal
  \<open>((kin - 1) mod 20) + 1\<close> and the tone \<open>((kin - 1) mod 13) + 1\<close> of that kin,
  returns the kin, and the kin is the only number in 1..260 with that seal and tone.
\<close>

theorem kin_from_seal_tone_roundtrip:
  assumes "1 \<le> k" "k \<le> 260"
  shows "kin_from_seal_tone (((k - 1) mod 20) + 1) (((k - 1) mod 13) + 1) = Inr k \<and>
         {j. 1 \<le> j \<and> j \<le> 260 \<and> ((j - 1) mod 20) + 1 = ((k - 1) mod 20) + 1 \<and>
             ((j - 1) mod 13) + 1 = ((k - 1) mod 13) + 1} = {k}"
proof
  show "kin_from_seal_tone (((k - 1) mod 20) + 1) (((k - 1) mod 13) + 1) = Inr k"
    using assms by (rule kin_from_seal_tone_unique) (rule refl)+
  have "j = k" if "1 \<le> j" "j \<le> 260" "((j - 1) mod 20) + 1 = ((k - 1) mod 20) + 1"
    "((j - 1) mod 13) + 1 = ((k - 1) mod 13) + 1" for j
  proof -
    have "(j - 1) mod 20 = (k - 1) mod 20" "(j - 1) mod 13 = (k - 1) mod 13"
      using that(3,4) by linarith+
    with that(1,2) assms show ?thesis by (rule residues_unique)
  qed
  then show "{j. 1 \<le> j \<and> j \<le> 260 \<and> ((j - 1) mod 20) + 1 = ((k - 1) mod 20) + 1 \<and>
             ((j - 1) mod 13) + 1 = ((k - 1) mod 13) + 1} = {k}"
    using assms by blast
qed

theorem kin_from_seal_tone_roundtrip_witness:
  "kin_from_seal_tone 6 11 = Inr 206 \<and>
   {j. 1 \<le> j \<and> j \<le> 260 \<and> ((j - 1) mod 20) + 1 = (6::int) \<and> ((j - 1) mod 13) + 1 = 11} = {206}"
  using kin_from_seal_tone_roundtrip [of 206] by simp


section \<open>The Guide seal\<close>

lemma colour_group_lookup:
  assumes "0 \<le> c" "c < 4"
  shows "bind_err (py_index COLORS c)
           (\<lambda>color. case COLOR_GROUPS color of None \<Rightarrow> Inl KeyError | Some grp \<Rightarrow> F grp)
         = F [c + 1, c + 5, c + 9, c + 13, c + 17]"
proof -
  consider "c = 0" | "c = 1" | "c = 2" | "c = 3" using assms by linarith
  then show ?thesis
  proof cases
    case 1 then show ?thesis by (simp add: py_index_def COLORS_def COLOR_GROUPS_def)
  next
    case 2 then show ?thesis by (simp add: py_index_def COLORS_def COLOR_GROUPS_def)
  next
    case 3 then show ?thesis by (simp add: py_index_def COLORS_def COLOR_GROUPS_def)
  next
    case 4 then show ?thesis by (simp add: py_index_def COLORS_def COLOR_GROUPS_def)
  qed
qed

lemma group_member:
  assumes "0 \<le> i" "i < 5"
  shows "py_index [c + 1, c + 5, c + 9, c + 13, c + 17] i = Inr (c + 1 + 4 * (i::int))"
proof -
  consider "i = 0" | "i = 1" | "i = 2" | "i = 3" | "i = 4" using assms by linarith
  then show ?thesis by cases (simp_all add: py_index_def)
qed

lemma guide_index_table:
  "(tone, i) \<in> set [(2, 4), (3, 3), (4, 2), (5, 3), (7, 2), (8, 1), (9, 0), (10, 2), (12, 1), (13, 3)]
   \<Longrightarrow> GUIDE_INDEX_BY_TONE tone = Some (Some i) \<and> 0 \<le> i \<and> i < 5 \<and>
       tone \<noteq> 1 \<and> tone \<noteq> 6 \<and> tone \<noteq> 11"
  by (auto simp: GUIDE_INDEX_BY_TONE_def)

lemma guide_seal_by_table:
  assumes "(tone, i) \<in> set [(2, 4), (3, 3), (4, 2), (5, 3), (7, 2), (8, 1), (9, 0), (10, 2), (12, 1), (13, 3)]"
  shows "guide_seal seal tone = Inr ((seal - 1) mod 4 + 1 + 4 * i)"
proof -
  from guide_index_table [OF assms] have
    t: "GUIDE_INDEX_BY_TONE tone = Some (Some i)" and i: "0 \<le> i" "i < 5"
    and n: "\<not> (tone = 1 \<or> tone = 6 \<or> tone = 11)" by simp_all
  have "guide_seal seal tone =
        bind_err (py_index COLORS ((seal - 1) mod 4))
          (\<lambda>color. case COLOR_GROUPS color of None \<Rightarrow> Inl KeyError
             | Some grp \<Rightarrow> py_index grp i)"
    unfolding guide_seal_def t option.case using n by simp
  also have "\<dots> = py_index [(seal - 1) mod 4 + 1, (seal - 1) mod 4 + 5, (seal - 1) mod 4 + 9,
      (seal - 1) mod 4 + 13, (seal - 1) mod 4 + 17] i"
    by (rule colour_group_lookup) simp_all
  also have "\<dots> = Inr ((seal - 1) mod 4 + 1 + 4 * i)" using i by (rule group_member)
  finally show ?thesis .
qed

lemma colour_group_facts:
  assumes "0 \<le> c" "c < 4"
  shows "\<exists>color. py_index COLORS c = Inr color \<and>
           COLOR_GROUPS color = Some [c + 1, c + 5, c + 9, c + 13, c + 17]"
proof -
  consider "c = 0" | "c = 1" | "c = 2" | "c = 3" using assms by linarith
  then show ?thesis
    by cases (simp_all add: py_index_def COLORS_def COLOR_GROUPS_def)
qed

lemma seal_in_own_group:
  assumes "1 \<le> seal" "seal \<le> (20::int)"
  shows "seal \<in> set [(seal - 1) mod 4 + 1, (seal - 1) mod 4 + 5, (seal - 1) mod 4 + 9,
           (seal - 1) mod 4 + 13, (seal - 1) mod 4 + 17]"
proof -
  define q where "q = (seal - 1) div 4"
  have s: "seal = (seal - 1) mod 4 + 1 + 4 * q" unfolding q_def by simp
  have "0 \<le> q" "q \<le> 4" unfolding q_def using assms by simp_all
  then consider "q = 0" | "q = 1" | "q = 2" | "q = 3" | "q = 4" by linarith
  then show ?thesis using s by cases simp_all
qed

lemma guided_tone_has_index:
  assumes "1 \<le> tone" "tone \<le> (13::int)" "tone \<noteq> 1" "tone \<noteq> 6" "tone \<noteq> 11"
  shows "\<exists>i. (tone, i) \<in> set [(2, 4), (3, 3), (4, 2), (5, 3), (7, 2), (8, 1), (9, 0), (10, 2),
           (12, 1), (13, 3::int)]"
proof -
  have "tone = 2 \<or> tone = 3 \<or> tone = 4 \<or> tone = 5 \<or> tone = 7 \<or> tone = 8 \<or>
        tone = 9 \<or> tone = 10 \<or> tone = 12 \<or> tone = 13"
    using assms by arith
  then show ?thesis by (elim disjE) simp_all
qed

lemma guide_seal_total:
  assumes "1 \<le> seal" "seal \<le> 20" "1 \<le> tone" "tone \<le> 13"
  shows "\<exists>g. guide_seal seal tone = Inr g \<and> 1 \<le> g \<and> g \<le> 20 \<and>
           (g - 1) mod 4 = (seal - 1) mod 4"
proof (cases "tone = 1 \<or> tone = 6 \<or> tone = 11")
  case True
  then have "guide_seal seal tone = Inr seal" by (simp add: guide_seal_def)
  with assms show ?thesis by simp
next
  case False
  with assms(3,4) guided_tone_has_index [of tone] obtain i where
    i: "(tone, i) \<in> set [(2, 4), (3, 3), (4, 2), (5, 3), (7, 2), (8, 1), (9, 0), (10, 2),
           (12, 1), (13, 3::int)]" by blast
  from guide_index_table [OF i] have r: "0 \<le> i" "i < 5" by simp_all
  have g: "guide_seal seal tone = Inr ((seal - 1) mod 4 + 1 + 4 * i)"
    using i by (rule guide_seal_by_table)
  have c: "0 \<le> (seal - 1) mod 4" "(seal - 1) mod 4 < 4" by simp_all
  have "((seal - 1) mod 4 + 1 + 4 * i - 1) mod 4 = (seal - 1) mod 4" by simp
  moreover have "1 \<le> (seal - 1) mod 4 + 1 + 4 * i" "(seal - 1) mod 4 + 1 + 4 * i \<le> 20"
    using r c by linarith+
  ultimately show ?thesis using g by blast
qed

theorem guide_seal_spec_table_counterexample:
  "guide_seal 1 2 = Inr 17 \<and> guide_seal_spec 1 2 = Inr 13 \<and>
   guide_seal 1 2 \<noteq> guide_seal_spec 1 2"
  by (simp add: guide_seal_def guide_seal_spec_def py_index_def COLORS_def COLOR_GROUPS_def
      GUIDE_INDEX_BY_TONE_def SPEC_GUIDE_INDEX_def)

text \<open>
  C1, as the code has it. For every seal in 1..20 and every tone of the table, the Guide
  seal is the member of the seal's own colour group (the five-seal group of the colour at
  \<open>(seal - 1) mod 4\<close>, which contains the seal) at the 0-based index that
  \<open>GUIDE_INDEX_BY_TONE\<close> gives: tones 2, 3, 4, 5, 7, 8, 9, 10, 12, 13 go to the indices
  4, 3, 2, 3, 2, 1, 0, 2, 1, 3. The indices 3, 2, 1, 2, 1, 0, 4, 1, 0, 2 of the
  specification are not the table of the code: at seal 1 and tone 2 the code returns
  seal 17 (index 4 of the red group), the specification's table gives seal 13.
\<close>

theorem guide_seal_code_table:
  assumes "1 \<le> seal" "seal \<le> 20"
    and "(tone, i) \<in> set [(2, 4), (3, 3), (4, 2), (5, 3), (7, 2), (8, 1), (9, 0), (10, 2),
           (12, 1), (13, 3)]"
  shows "\<exists>color grp g. py_index COLORS ((seal - 1) mod 4) = Inr color \<and>
           COLOR_GROUPS color = Some grp \<and> length grp = 5 \<and> seal \<in> set grp \<and>
           py_index grp i = Inr g \<and> guide_seal seal tone = Inr g"
proof -
  let ?c = "(seal - 1) mod 4"
  let ?grp = "[?c + 1, ?c + 5, ?c + 9, ?c + 13, ?c + 17]"
  have c: "0 \<le> ?c" "?c < 4" by simp_all
  from colour_group_facts [OF c] obtain color where
    col: "py_index COLORS ?c = Inr color" "COLOR_GROUPS color = Some ?grp" by blast
  from guide_index_table [OF assms(3)] have r: "0 \<le> i" "i < 5" by simp_all
  have m: "py_index ?grp i = Inr (?c + 1 + 4 * i)" using r by (rule group_member)
  have g: "guide_seal seal tone = Inr (?c + 1 + 4 * i)"
    using assms(3) by (rule guide_seal_by_table)
  have l: "length ?grp = 5" by simp
  have s: "seal \<in> set ?grp" using assms(1,2) by (rule seal_in_own_group)
  from col l s m g show ?thesis by blast
qed

theorem guide_seal_code_table_witness:
  "\<exists>color grp g. py_index COLORS ((7 - 1) mod 4) = Inr color \<and>
     COLOR_GROUPS color = Some grp \<and> length grp = 5 \<and> (7::int) \<in> set grp \<and>
     py_index grp 0 = Inr g \<and> guide_seal 7 9 = Inr g"
  using guide_seal_code_table [of 7 9 0] by simp

text \<open>
  C10. The Guide seal has the colour of the source seal: for every seal in 1..20 and
  every tone in 1..13, \<open>guide_seal\<close> returns a seal \<open>g\<close> with
  \<open>(g - 1) mod 4 = (seal - 1) mod 4\<close>.
\<close>

theorem guide_keeps_colour:
  assumes "1 \<le> s" "s \<le> 20" "1 \<le> t" "t \<le> 13"
  shows "\<exists>g. guide_seal s t = Inr g \<and> (g - 1) mod 4 = (s - 1) mod 4"
  using guide_seal_total [OF assms] by blast

theorem guide_keeps_colour_witness:
  "\<exists>g. guide_seal 7 9 = Inr g \<and> (g - 1) mod 4 = ((7::int) - 1) mod 4"
  using guide_keeps_colour [of 7 9] by simp


section \<open>The leap adjustment, the forward mapping and the oracle record\<close>

lemma date_eq_iff:
  "(a::date) = b \<longleftrightarrow> year a = year b \<and> month a = month b \<and> day a = day b"
  by (auto intro: date.equality)

lemma date_lt_total: "a \<noteq> b \<Longrightarrow> \<not> date_lt a b \<Longrightarrow> date_lt b a"
  unfolding date_lt_def date_eq_iff by linarith

lemma date_lt_asym: "date_lt a b \<Longrightarrow> \<not> date_lt b a"
  unfolding date_lt_def by linarith

lemma date_lt_irrefl: "\<not> date_lt a a"
  unfolding date_lt_def by simp

lemma date_lt_year: "date_lt a b \<Longrightarrow> year a \<le> year b"
  unfolding date_lt_def by linarith

lemma date_le_year: "date_le a b \<Longrightarrow> year a \<le> year b"
  unfolding date_le_def using date_lt_year by auto

lemma is_leap_gregorian: "is_leap y = gregorian_leap y"
  by (simp add: is_leap_def gregorian_leap_def)

lemma date_new_feb29:
  assumes "is_leap y" "1 \<le> y" "y \<le> 9999"
  shows "date_new y 2 29 = Inr \<lparr>year = y, month = 2, day = 29\<rparr>"
proof -
  from assms(1) have "days_in_month y 2 = 29"
    by (simp add: days_in_month_def is_leap_gregorian)
  with assms(2,3) have "valid_date \<lparr>year = y, month = 2, day = 29\<rparr>"
    by (simp add: valid_date_def)
  then show ?thesis by (simp add: date_new_def)
qed

lemma count_feb29_value:
  assumes "\<And>y. y \<in> set ys \<Longrightarrow> 1 \<le> y \<and> y \<le> 9999"
  shows "count_feb29 mn mx ys n =
         Inr (n + int (length (filter
           (\<lambda>y. is_leap y \<and> date_lt mn \<lparr>year = y, month = 2, day = 29\<rparr> \<and>
                date_le \<lparr>year = y, month = 2, day = 29\<rparr> mx) ys)))"
  using assms
proof (induction ys arbitrary: n)
  case Nil
  show ?case by simp
next
  case (Cons y ys)
  have r: "1 \<le> y" "y \<le> 9999" using Cons.prems [of y] by simp_all
  have ih: "count_feb29 mn mx ys m =
         Inr (m + int (length (filter
           (\<lambda>y. is_leap y \<and> date_lt mn \<lparr>year = y, month = 2, day = 29\<rparr> \<and>
                date_le \<lparr>year = y, month = 2, day = 29\<rparr> mx) ys)))" for m
    by (rule Cons.IH) (use Cons.prems in simp)
  show ?case
  proof (cases "is_leap y")
    case True
    from date_new_feb29 [OF True r] show ?thesis by (simp add: True ih)
  next
    case False
    then show ?thesis by (simp add: ih)
  qed
qed

lemma years_between_valid:
  assumes "valid_date mn" "valid_date mx" "y \<in> set [year mn..year mx]"
  shows "1 \<le> y \<and> y \<le> 9999"
proof -
  from assms(3) have "year mn \<le> y" "y \<le> year mx" by simp_all
  with assms(1,2) show ?thesis unfolding valid_date_def by linarith
qed

lemma count_feb29_years:
  assumes "valid_date mn" "valid_date mx"
  shows "count_feb29 mn mx [year mn..year mx] 0 =
         Inr (int (length (filter
           (\<lambda>y. is_leap y \<and> date_lt mn \<lparr>year = y, month = 2, day = 29\<rparr> \<and>
                date_le \<lparr>year = y, month = 2, day = 29\<rparr> mx) [year mn..year mx])))"
  using count_feb29_value [of "[year mn..year mx]" mn mx 0]
    years_between_valid [OF assms] by simp

lemma hunab_ku_adjust_total:
  assumes "valid_date anchor" "valid_date target"
  shows "\<exists>n. hunab_ku_adjust anchor target = Inr n"
proof (cases "target = anchor")
  case True
  then show ?thesis by (simp add: hunab_ku_adjust_def)
next
  case False
  show ?thesis
  proof (cases "date_lt anchor target")
    case True
    with False count_feb29_years [OF assms] show ?thesis
      by (simp add: hunab_ku_adjust_def)
  next
    case lt: False
    with False count_feb29_years [OF assms(2,1)] show ?thesis
      by (simp add: hunab_ku_adjust_def)
  qed
qed

text \<open>
  C7. The leap adjustment is antisymmetric: for valid dates \<open>a \<noteq> b\<close>, both
  \<open>_hunab_ku_adjust(a, b)\<close> and \<open>_hunab_ku_adjust(b, a)\<close> return, and the one is the
  negation of the other.
\<close>

theorem hunab_ku_adjust_antisymmetric:
  assumes "valid_date a" "valid_date b" "a \<noteq> b"
  shows "\<exists>n. hunab_ku_adjust a b = Inr n \<and> hunab_ku_adjust b a = Inr (- n)"
proof (cases "date_lt a b")
  case True
  then have n: "\<not> date_lt b a" by (rule date_lt_asym)
  from assms(3) have ne: "b \<noteq> a" by simp
  from True n assms(3) ne count_feb29_years [OF assms(1,2)] show ?thesis
    by (simp add: hunab_ku_adjust_def)
next
  case False
  with assms(3) have lt: "date_lt b a" by (rule date_lt_total)
  from assms(3) have ne: "b \<noteq> a" by simp
  from False lt assms(3) ne count_feb29_years [OF assms(2,1)] show ?thesis
    by (simp add: hunab_ku_adjust_def)
qed

theorem hunab_ku_adjust_antisymmetric_witness:
  "valid_date \<lparr>year = 2012, month = 12, day = 20\<rparr> \<and>
   valid_date \<lparr>year = 2019, month = 2, day = 7\<rparr> \<and>
   (\<exists>n. hunab_ku_adjust \<lparr>year = 2012, month = 12, day = 20\<rparr>
          \<lparr>year = 2019, month = 2, day = 7\<rparr> = Inr n \<and>
        hunab_ku_adjust \<lparr>year = 2019, month = 2, day = 7\<rparr>
          \<lparr>year = 2012, month = 12, day = 20\<rparr> = Inr (- n))"
proof -
  have a: "valid_date \<lparr>year = 2012, month = 12, day = 20\<rparr>"
    by (simp add: valid_date_def days_in_month_def)
  have b: "valid_date \<lparr>year = 2019, month = 2, day = 7\<rparr>"
    by (simp add: valid_date_def days_in_month_def)
  have c: "\<lparr>year = 2012, month = 12, day = 20\<rparr> \<noteq> \<lparr>year = 2019, month = 2, day = (7::int)\<rparr>"
    by simp
  from a b hunab_ku_adjust_antisymmetric [OF a b c] show ?thesis by blast
qed

lemma leap_year_spec_is_leap: "leap_year_spec y = is_leap y"
  by (simp add: leap_year_spec_def is_leap_def dvd_eq_mod_eq_0)

lemma feb29_days_between_image:
  "feb29_days_between lo hi =
   (\<lambda>y. \<lparr>year = y, month = 2, day = 29\<rparr>) `
     set (filter (\<lambda>y. is_leap y \<and> date_lt lo \<lparr>year = y, month = 2, day = 29\<rparr> \<and>
                      date_le \<lparr>year = y, month = 2, day = 29\<rparr> hi) [year lo..year hi])"
  (is "?L = ?F ` ?S")
proof (rule set_eqI)
  fix x
  show "x \<in> ?L \<longleftrightarrow> x \<in> ?F ` ?S"
  proof
    assume "x \<in> ?L"
    then have x: "is_leap (year x)" "month x = 2" "day x = 29" "date_lt lo x" "date_le x hi"
      by (simp_all add: feb29_days_between_def leap_year_spec_is_leap)
    have e: "x = ?F (year x)" using x(2,3) by (simp add: date_eq_iff)
    have "year lo \<le> year x" "year x \<le> year hi"
      using x(4,5) date_lt_year date_le_year by blast+
    moreover have "date_lt lo (?F (year x))" "date_le (?F (year x)) hi"
      using x(4,5) e by simp_all
    ultimately have "year x \<in> ?S" using x(1) by simp
    with e show "x \<in> ?F ` ?S" by (rule image_eqI)
  next
    assume "x \<in> ?F ` ?S"
    then obtain y where y: "x = ?F y" "y \<in> ?S" by blast
    then show "x \<in> ?L"
      by (simp add: feb29_days_between_def leap_year_spec_is_leap)
  qed
qed

lemma feb29_days_between_card:
  "card (feb29_days_between lo hi) =
   length (filter (\<lambda>y. is_leap y \<and> date_lt lo \<lparr>year = y, month = 2, day = 29\<rparr> \<and>
                      date_le \<lparr>year = y, month = 2, day = 29\<rparr> hi) [year lo..year hi])"
  (is "_ = length ?xs")
proof -
  have i: "inj_on (\<lambda>y::int. \<lparr>year = y, month = 2::int, day = 29::int\<rparr>) (set ?xs)"
    by (rule inj_onI) simp
  have d: "distinct ?xs" by (rule distinct_filter) (rule distinct_upto)
  have "card (feb29_days_between lo hi) = card (set ?xs)"
    unfolding feb29_days_between_image using i by (rule card_image)
  also have "\<dots> = length ?xs" using d by (rule distinct_card)
  finally show ?thesis .
qed

text \<open>
  C5. For valid dates \<open>anchor\<close> and \<open>target\<close> the leap adjustment returns the number
  of 29 February days (of years divisible by 4 and not by 100 unless by 400) strictly after
  the earlier date and not after the later one, negated when the target is after the
  anchor, as it is when the target is before the anchor, and 0 when the two are equal;
  neither date being before the other is the same as their being equal.
\<close>

theorem hunab_ku_adjust_counts_leap_days:
  assumes "valid_date anchor" "valid_date target"
  shows "hunab_ku_adjust anchor target = Inr (leap_adjust_spec anchor target) \<and>
         (target = anchor \<longleftrightarrow> \<not> date_lt anchor target \<and> \<not> date_lt target anchor)"
proof
  show "hunab_ku_adjust anchor target = Inr (leap_adjust_spec anchor target)"
  proof (cases "target = anchor")
    case True
    then show ?thesis
      by (simp add: hunab_ku_adjust_def leap_adjust_spec_def date_lt_irrefl)
  next
    case False
    then have ne: "anchor \<noteq> target" by simp
    show ?thesis
    proof (cases "date_lt anchor target")
      case True
      with False count_feb29_years [OF assms] show ?thesis
        by (simp add: hunab_ku_adjust_def leap_adjust_spec_def feb29_days_between_card)
    next
      case lt: False
      with ne have "date_lt target anchor" by (rule date_lt_total)
      with False lt count_feb29_years [OF assms(2,1)] show ?thesis
        by (simp add: hunab_ku_adjust_def leap_adjust_spec_def feb29_days_between_card)
    qed
  qed
  show "target = anchor \<longleftrightarrow> \<not> date_lt anchor target \<and> \<not> date_lt target anchor"
    using date_lt_total [of anchor target] date_lt_irrefl [of anchor] by blast
qed

theorem hunab_ku_adjust_counts_leap_days_witness:
  "valid_date \<lparr>year = 2012, month = 12, day = 20\<rparr> \<and>
   valid_date \<lparr>year = 2019, month = 2, day = 7\<rparr> \<and>
   hunab_ku_adjust \<lparr>year = 2012, month = 12, day = 20\<rparr> \<lparr>year = 2019, month = 2, day = 7\<rparr>
     = Inr (leap_adjust_spec \<lparr>year = 2012, month = 12, day = 20\<rparr>
              \<lparr>year = 2019, month = 2, day = 7\<rparr>) \<and>
   leap_adjust_spec \<lparr>year = 2012, month = 12, day = 20\<rparr>
     \<lparr>year = 2019, month = 2, day = 7\<rparr> = - 1"
proof -
  have a: "valid_date \<lparr>year = 2012, month = 12, day = 20\<rparr>"
    by (simp add: valid_date_def days_in_month_def)
  have b: "valid_date \<lparr>year = 2019, month = 2, day = 7\<rparr>"
    by (simp add: valid_date_def days_in_month_def)
  have e: "hunab_ku_adjust \<lparr>year = 2012, month = 12, day = 20\<rparr>
             \<lparr>year = 2019, month = 2, day = 7\<rparr> = Inr (- 1)"
    by (simp add: hunab_ku_adjust_def date_lt_def date_le_def is_leap_def date_new_def
        valid_date_def days_in_month_def gregorian_leap_def upto.simps)
  from a b e hunab_ku_adjust_counts_leap_days [OF a b] show ?thesis by simp
qed

lemma valid_anchor: "valid_date ANCHOR_DATE"
  by (simp add: ANCHOR_DATE_def valid_date_def days_in_month_def)

lemma kin_from_date_ranges:
  assumes "valid_date d"
  shows "\<exists>kin tone seal color. kin_from_date d = Inr (kin, tone, seal, color) \<and>
           1 \<le> kin \<and> kin \<le> 260 \<and>
           tone = (kin - 1) mod 13 + 1 \<and> 1 \<le> tone \<and> tone \<le> 13 \<and>
           seal = (kin - 1) mod 20 + 1 \<and> 1 \<le> seal \<and> seal \<le> 20 \<and>
           py_index COLORS ((seal - 1) mod 4) = Inr color"
proof -
  from hunab_ku_adjust_total [OF valid_anchor assms] obtain adj where
    adj: "hunab_ku_adjust ANCHOR_DATE d = Inr adj" by blast
  define kin where "kin = (date_diff_days d ANCHOR_DATE + adj + (ANCHOR_KIN - 1)) mod 260 + 1"
  define tone where "tone = (kin - 1) mod 13 + 1"
  define seal where "seal = (kin - 1) mod 20 + 1"
  have c: "0 \<le> (seal - 1) mod 4" "(seal - 1) mod 4 < 4" by simp_all
  from colour_group_facts [OF c] obtain color where
    col: "py_index COLORS ((seal - 1) mod 4) = Inr color" by blast
  have v: "kin_from_date d = Inr (kin, tone, seal, color)"
    using col unfolding kin_from_date_def adj kin_def tone_def seal_def
    by (simp add: Let_def)
  have k: "1 \<le> kin" "kin \<le> 260" unfolding kin_def by simp_all
  have t: "1 \<le> tone" "tone \<le> 13" unfolding tone_def by simp_all
  have s: "1 \<le> seal" "seal \<le> 20" unfolding seal_def by simp_all
  from v k t s col tone_def seal_def show ?thesis by blast
qed

text \<open>
  C6. For every valid date, before or after the anchor, \<open>kin_from_date\<close> returns a
  kin in 1..260, the tone \<open>(kin - 1) mod 13 + 1\<close> in 1..13, the seal
  \<open>(kin - 1) mod 20 + 1\<close> in 1..20 and the colour \<open>COLORS[(seal - 1) mod 4]\<close>. The model
  is a function of the date alone, so the result is determined by the date.
\<close>

theorem kin_from_date_in_range:
  assumes "valid_date d"
  shows "\<exists>kin tone seal color. kin_from_date d = Inr (kin, tone, seal, color) \<and>
           1 \<le> kin \<and> kin \<le> 260 \<and>
           tone = (kin - 1) mod 13 + 1 \<and> 1 \<le> tone \<and> tone \<le> 13 \<and>
           seal = (kin - 1) mod 20 + 1 \<and> 1 \<le> seal \<and> seal \<le> 20 \<and>
           py_index COLORS ((seal - 1) mod 4) = Inr color"
  using assms by (rule kin_from_date_ranges)

theorem kin_from_date_in_range_witness:
  "valid_date \<lparr>year = 1999, month = 12, day = 31\<rparr> \<and>
   date_lt \<lparr>year = 1999, month = 12, day = 31\<rparr> ANCHOR_DATE \<and>
   kin_from_date \<lparr>year = 1999, month = 12, day = 31\<rparr> = Inr (152, 9, 12, ''Amarelo'') \<and>
   (\<exists>kin tone seal color.
      kin_from_date \<lparr>year = 1999, month = 12, day = 31\<rparr> = Inr (kin, tone, seal, color) \<and>
      1 \<le> kin \<and> kin \<le> 260 \<and>
      tone = (kin - 1) mod 13 + 1 \<and> 1 \<le> tone \<and> tone \<le> 13 \<and>
      seal = (kin - 1) mod 20 + 1 \<and> 1 \<le> seal \<and> seal \<le> 20 \<and>
      py_index COLORS ((seal - 1) mod 4) = Inr color)"
proof -
  have a: "valid_date \<lparr>year = 1999, month = 12, day = 31\<rparr>"
    by (simp add: valid_date_def days_in_month_def)
  have b: "date_lt \<lparr>year = 1999, month = 12, day = 31\<rparr> ANCHOR_DATE"
    by (simp add: date_lt_def ANCHOR_DATE_def)
  have e: "kin_from_date \<lparr>year = 1999, month = 12, day = 31\<rparr> = Inr (152, 9, 12, ''Amarelo'')"
    by (simp add: kin_from_date_def ANCHOR_DATE_def ANCHOR_KIN_def hunab_ku_adjust_def
        date_lt_def date_le_def is_leap_def date_new_def valid_date_def days_in_month_def
        gregorian_leap_def upto.simps date_diff_days_def toordinal_def days_before_year_def
        days_before_month_def py_index_def COLORS_def)
  from a b e kin_from_date_in_range [OF a] show ?thesis by blast
qed

lemma antipode_seal_range: "1 \<le> antipode_seal s \<and> antipode_seal s \<le> 20"
  by (simp add: antipode_seal_def)

lemma occult_seal_range: "1 \<le> occult_seal s \<and> occult_seal s \<le> 20"
proof -
  have "0 \<le> (21 - s mod 20) mod 20" "(21 - s mod 20) mod 20 < 20" by simp_all
  then show ?thesis by (auto simp: occult_seal_def Let_def)
qed

lemma occult_tone_range: "1 \<le> occult_tone t \<and> occult_tone t \<le> 13"
proof -
  have "0 \<le> (14 - t mod 13) mod 13" "(14 - t mod 13) mod 13 < 13" by simp_all
  then show ?thesis by (auto simp: occult_tone_def Let_def)
qed

lemma py_index_front: "0 \<le> i \<Longrightarrow> i < int (length xs) \<Longrightarrow> py_index xs i = Inr (xs ! nat i)"
  by (simp add: py_index_def)

lemma mk_part_total:
  assumes "1 \<le> s" "s \<le> 20" "1 \<le> t" "t \<le> 13"
  shows "\<exists>p. mk_part s t = Inr p"
proof -
  from kin_from_seal_tone_total [OF assms] obtain k where
    k: "kin_from_seal_tone s t = Inr k" by blast
  have a: "py_index SEALS (s - 1) = Inr (SEALS ! nat (s - 1))"
    by (rule py_index_front) (use assms in \<open>simp_all add: SEALS_def\<close>)
  have b: "py_index TONES (t - 1) = Inr (TONES ! nat (t - 1))"
    by (rule py_index_front) (use assms in \<open>simp_all add: TONES_def\<close>)
  have "0 \<le> (s - 1) mod 4" "(s - 1) mod 4 < 4" by simp_all
  from colour_group_facts [OF this] obtain color where
    c: "py_index COLORS ((s - 1) mod 4) = Inr color" by blast
  show ?thesis unfolding mk_part_def k a b c by simp
qed

text \<open>
  C4. For every valid date the oracle record is built without an exception: the tone and
  the Occult tone are in 1..13, the Analog, Antipode, Guide and Occult seals are in 1..20,
  the inverse lookup returns a kin for each of the four derived pairs, and
  \<open>full_oracle_for_date\<close> returns a record.
\<close>

theorem full_oracle_never_raises:
  assumes "valid_date d"
  shows "\<exists>kin tone seal color g.
           kin_from_date d = Inr (kin, tone, seal, color) \<and> guide_seal seal tone = Inr g \<and>
           1 \<le> tone \<and> tone \<le> 13 \<and> 1 \<le> occult_tone tone \<and> occult_tone tone \<le> 13 \<and>
           1 \<le> analog_seal seal \<and> analog_seal seal \<le> 20 \<and>
           1 \<le> antipode_seal seal \<and> antipode_seal seal \<le> 20 \<and>
           1 \<le> g \<and> g \<le> 20 \<and>
           1 \<le> occult_seal seal \<and> occult_seal seal \<le> 20 \<and>
           (\<exists>k1 k2 k3 k4.
              kin_from_seal_tone (analog_seal seal) tone = Inr k1 \<and>
              kin_from_seal_tone (antipode_seal seal) tone = Inr k2 \<and>
              kin_from_seal_tone g tone = Inr k3 \<and>
              kin_from_seal_tone (occult_seal seal) (occult_tone tone) = Inr k4) \<and>
           (\<exists>r. full_oracle_for_date strftime d = Inr r)"
proof -
  from kin_from_date_ranges [OF assms] obtain kin tone seal color where
    v: "kin_from_date d = Inr (kin, tone, seal, color)"
    and t: "1 \<le> tone" "tone \<le> 13" and s: "1 \<le> seal" "seal \<le> 20" by blast
  from guide_seal_total [OF s t] obtain g where
    g: "guide_seal seal tone = Inr g" "1 \<le> g" "g \<le> 20" by blast
  note a = analog_seal_range [of seal]
  note an = antipode_seal_range [of seal]
  note os = occult_seal_range [of seal]
  note ot = occult_tone_range [of tone]
  from kin_from_seal_tone_total [of "analog_seal seal" tone] a t obtain k1 where
    k1: "kin_from_seal_tone (analog_seal seal) tone = Inr k1" by blast
  from kin_from_seal_tone_total [of "antipode_seal seal" tone] an t obtain k2 where
    k2: "kin_from_seal_tone (antipode_seal seal) tone = Inr k2" by blast
  from kin_from_seal_tone_total [of g tone] g t obtain k3 where
    k3: "kin_from_seal_tone g tone = Inr k3" by blast
  from kin_from_seal_tone_total [of "occult_seal seal" "occult_tone tone"] os ot obtain k4 where
    k4: "kin_from_seal_tone (occult_seal seal) (occult_tone tone) = Inr k4" by blast
  from mk_part_total [OF s t] obtain p0 where p0: "mk_part seal tone = Inr p0" by blast
  from mk_part_total [of "analog_seal seal" tone] a t obtain p1 where
    p1: "mk_part (analog_seal seal) tone = Inr p1" by blast
  from mk_part_total [of "antipode_seal seal" tone] an t obtain p2 where
    p2: "mk_part (antipode_seal seal) tone = Inr p2" by blast
  from mk_part_total [of g tone] g t obtain p3 where
    p3: "mk_part g tone = Inr p3" by blast
  from mk_part_total [of "occult_seal seal" "occult_tone tone"] os ot obtain p4 where
    p4: "mk_part (occult_seal seal) (occult_tone tone) = Inr p4" by blast
  have r: "\<exists>r. full_oracle_for_date strftime d = Inr r"
    unfolding full_oracle_for_date_def v
    by (simp add: Let_def g(1) p0 p1 p2 p3 p4)
  have ks: "\<exists>k1 k2 k3 k4.
              kin_from_seal_tone (analog_seal seal) tone = Inr k1 \<and>
              kin_from_seal_tone (antipode_seal seal) tone = Inr k2 \<and>
              kin_from_seal_tone g tone = Inr k3 \<and>
              kin_from_seal_tone (occult_seal seal) (occult_tone tone) = Inr k4"
    using k1 k2 k3 k4 by blast
  from v g t a an os ot ks r show ?thesis by blast
qed

theorem full_oracle_never_raises_witness:
  "valid_date \<lparr>year = 2019, month = 2, day = 7\<rparr> \<and>
   (\<exists>r. full_oracle_for_date (\<lambda>d. ''07/02/2019'') \<lparr>year = 2019, month = 2, day = 7\<rparr> = Inr r)"
proof -
  have a: "valid_date \<lparr>year = 2019, month = 2, day = 7\<rparr>"
    by (simp add: valid_date_def days_in_month_def)
  from a full_oracle_never_raises [OF a, of "\<lambda>d. ''07/02/2019''"] show ?thesis by blast
qed


end
